theory Spec2Isabelle
  imports Main
begin

section \<open>Python values used by the handler\<close>

text \<open>
  The handler of \<^verbatim>\<open>src/main.py\<close> reads two fields of the event payload with
  \<^verbatim>\<open>data.get(...)\<close> and three environment variables with
  \<^verbatim>\<open>os.environ.get(...)\<close>. Both return a string or \<^verbatim>\<open>None\<close>, so each of
  the five values is a \<open>string option\<close>. A string is the list of the bytes of its UTF-8
  encoding; the separators \<^verbatim>\<open>/\<close> and \<^verbatim>\<open>.\<close> and the letters of the allowed
  extensions are ASCII, and no byte of a multi-byte UTF-8 sequence is ASCII, so the indices
  that \<^verbatim>\<open>rfind\<close> compares are in the same order on bytes as on code points.
  \<^verbatim>\<open>str.lower\<close> also changes letters outside ASCII; the only ones it turns into text
  with an ASCII letter are the Kelvin sign (to \<^verbatim>\<open>k\<close>) and the dotted capital I (to
  \<^verbatim>\<open>i\<close> and a combining dot), and no allowed extension has a \<^verbatim>\<open>k\<close> or an
  \<^verbatim>\<open>i\<close>, so lower-casing the ASCII letters alone decides membership in the allow-set.
\<close>

definition truthy :: "string option \<Rightarrow> bool" where
  \<comment> \<open>Python truth value of a string or \<^verbatim>\<open>None\<close>: false for \<^verbatim>\<open>None\<close> and for \<^verbatim>\<open>""\<close>.\<close>
  "truthy v = (case v of None \<Rightarrow> False | Some s \<Rightarrow> s \<noteq> [])"

definition all_py :: "string option list \<Rightarrow> bool" where
  \<comment> \<open>\<^verbatim>\<open>all([...])\<close> over a list of such values.\<close>
  "all_py vs = list_all truthy vs"

definition lower_char :: "char \<Rightarrow> char" where
  \<comment> \<open>\<^verbatim>\<open>str.lower\<close> on one byte: \<^verbatim>\<open>A\<close>..\<^verbatim>\<open>Z\<close> go to \<^verbatim>\<open>a\<close>..\<^verbatim>\<open>z\<close>, every other byte stays.\<close>
  "lower_char c =
     (case map_of (zip ''ABCDEFGHIJKLMNOPQRSTUVWXYZ'' ''abcdefghijklmnopqrstuvwxyz'') c of
        Some d \<Rightarrow> d
      | None \<Rightarrow> c)"

definition lower :: "string \<Rightarrow> string" where
  "lower s = map lower_char s"

subsection \<open>\<^verbatim>\<open>os.path.splitext\<close>\<close>

text \<open>
  \<^verbatim>\<open>os.path.splitext\<close> is the standard library's \<^verbatim>\<open>posixpath.splitext\<close>, which
  calls \<^verbatim>\<open>genericpath._splitext(p, '/', None, '.')\<close>:
  \<^verbatim>\<open>
  sepIndex = p.rfind(sep)
  dotIndex = p.rfind(extsep)
  if dotIndex > sepIndex:
      # skip all leading dots
      filenameIndex = sepIndex + 1
      while filenameIndex < dotIndex:
          if p[filenameIndex:filenameIndex+1] != extsep:
              return p[:dotIndex], p[dotIndex:]
          filenameIndex += 1
  return p, p[:0]
  \<close>
\<close>

fun rfind_from :: "char \<Rightarrow> string \<Rightarrow> int \<Rightarrow> int \<Rightarrow> int" where
  \<comment> \<open>scan from index \<open>i\<close>, remembering in \<open>r\<close> the last index at which \<open>c\<close> was seen\<close>
  "rfind_from c [] i r = r"
| "rfind_from c (x # xs) i r = rfind_from c xs (i + 1) (if x = c then i else r)"

definition rfind :: "string \<Rightarrow> char \<Rightarrow> int" where
  \<comment> \<open>\<^verbatim>\<open>p.rfind(c)\<close>: the highest index of \<open>c\<close> in \<open>p\<close>, or \<open>-1\<close>.\<close>
  "rfind p c = rfind_from c p 0 (- 1)"

definition slice :: "string \<Rightarrow> int \<Rightarrow> int \<Rightarrow> string" where
  \<comment> \<open>\<^verbatim>\<open>p[a:b]\<close> for \<open>0 \<le> a\<close> and \<open>0 \<le> b\<close>.\<close>
  "slice p a b = take (nat (b - a)) (drop (nat a) p)"

function skip_leading_dots :: "string \<Rightarrow> int \<Rightarrow> int \<Rightarrow> string \<times> string" where
  \<comment> \<open>the \<^verbatim>\<open>while\<close> loop of \<^verbatim>\<open>_splitext\<close> and the final \<^verbatim>\<open>return p, p[:0]\<close>\<close>
  "skip_leading_dots p filenameIndex dotIndex =
     (if filenameIndex < dotIndex then
        (if slice p filenameIndex (filenameIndex + 1) \<noteq> ''.''
         then (take (nat dotIndex) p, drop (nat dotIndex) p)
         else skip_leading_dots p (filenameIndex + 1) dotIndex)
      else (p, []))"
  by pat_completeness auto
termination
  by (relation "measure (\<lambda>(p, filenameIndex, dotIndex). nat (dotIndex - filenameIndex))") auto

declare skip_leading_dots.simps [simp del]

definition splitext :: "string \<Rightarrow> string \<times> string" where
  "splitext p =
     (let sepIndex = rfind p CHR ''/'';
          dotIndex = rfind p CHR ''.''
      in if dotIndex > sepIndex then skip_leading_dots p (sepIndex + 1) dotIndex
         else (p, []))"

subsection \<open>The extension as the specification words it\<close>

text \<open>
  The specification derives the extension as the ``suffix after the last path separator and
  the last dot, lower-cased for comparison''. The definitions below follow those words, to be
  compared with \<open>splitext\<close>: \<open>spec_basename\<close> is what follows the last \<^verbatim>\<open>/\<close>,
  \<open>spec_suffix\<close> is that component from its last dot on (empty when it has no dot), and
  \<open>spec_stem\<close> is what the component holds before that last dot.
\<close>

definition spec_basename :: "string \<Rightarrow> string" where
  "spec_basename name = rev (takeWhile (\<lambda>c. c \<noteq> CHR ''/'') (rev name))"

definition spec_stem :: "string \<Rightarrow> string" where
  "spec_stem name = rev (drop 1 (dropWhile (\<lambda>c. c \<noteq> CHR ''.'') (rev (spec_basename name))))"

definition spec_suffix :: "string \<Rightarrow> string" where
  "spec_suffix name =
     (let base = spec_basename name
      in if CHR ''.'' \<in> set base
         then CHR ''.'' # rev (takeWhile (\<lambda>c. c \<noteq> CHR ''.'') (rev base))
         else [])"

definition spec_extension :: "string \<Rightarrow> string" where
  "spec_extension name = lower (spec_suffix name)"

section \<open>The event, the configuration and the indexing client\<close>

record cloud_event =
  data :: "string \<rightharpoonup> string"

record env =
  PROJECT_ID :: "string option"
  LOCATION :: "string option"
  DATA_STORE_ID :: "string option"

definition ALLOWED_EXTENSIONS :: "string set" where
  "ALLOWED_EXTENSIONS = {''.html'', ''.pdf'', ''.docx'', ''.pptx'', ''.txt'', ''.xlsx''}"

datatype ReconciliationMode = INCREMENTAL | FULL

record GcsSource =
  input_uris :: "string list"
  data_schema :: string

record ImportDocumentsRequest =
  parent :: string
  gcs_source :: GcsSource
  reconciliation_mode :: ReconciliationMode

text \<open>
  What \<^verbatim>\<open>import_documents\<close> raises. The handler's \<^verbatim>\<open>except\<close> clause names
  \<^verbatim>\<open>GoogleAPICallError\<close> only, so the model keeps that class apart from every other
  exception the call can raise (for instance \<^verbatim>\<open>google.api_core.exceptions.RetryError\<close>
  or a credentials error, none of which derives from \<^verbatim>\<open>GoogleAPICallError\<close>). Each
  carries the text \<^verbatim>\<open>str(e)\<close>.
\<close>

datatype exn = GoogleAPICallError string | OtherException string

record operation =
  operation_name :: string

type_synonym client = "ImportDocumentsRequest \<Rightarrow> exn + operation"

text \<open>
  Modelled from the spec: \<^verbatim>\<open>DocumentServiceClient.branch_path\<close> belongs to the client
  library \<^verbatim>\<open>google-cloud-discoveryengine\<close>, which is not under \<^verbatim>\<open>src/\<close>. It fills
  the resource name of a branch with its four arguments; the specification gives the name as
  \<^verbatim>\<open>projects/{PROJECT_ID}/locations/{LOCATION}/collections/default_collection/dataStores/{DATA_STORE_ID}/branches/default_branch\<close>
  ``or equivalent resource-naming scheme''. The properties proved below use only the four
  arguments and the final segment \<^verbatim>\<open>/branches/{branch}\<close>.
\<close>

definition branch_path :: "string \<Rightarrow> string \<Rightarrow> string \<Rightarrow> string \<Rightarrow> string" where
  "branch_path project location data_store branch =
     ''projects/'' @ project @ ''/locations/'' @ location @
     ''/collections/default_collection/dataStores/'' @ data_store @ ''/branches/'' @ branch"

section \<open>The handler\<close>

text \<open>
  The observable effects of one invocation, in the order in which they happen: the lines
  printed and the calls of \<^verbatim>\<open>import_documents\<close>. The outcome of an invocation is its
  trace and the exception it raises, if any.
\<close>

datatype effect = Print string | ImportDocuments ImportDocumentsRequest

record outcome =
  trace :: "effect list"
  raised :: "exn option"

definition gcs_uri_of :: "string \<Rightarrow> string \<Rightarrow> string" where
  \<comment> \<open>the f-string \<^verbatim>\<open>gs://{bucket_name}/{file_name}\<close>\<close>
  "gcs_uri_of bucket_name file_name = ''gs://'' @ bucket_name @ ''/'' @ file_name"

definition missing_msg :: string where
  "missing_msg =
     ''Error: Missing file details or environment variables (PROJECT_ID, LOCATION, DATA_STORE_ID).''"

definition processing_msg :: "string \<Rightarrow> string \<Rightarrow> string" where
  "processing_msg bucket_name file_name = ''Processing file: '' @ gcs_uri_of bucket_name file_name"

definition skipping_msg :: "string \<Rightarrow> string \<Rightarrow> string" where
  "skipping_msg file_name extension =
     ''Skipping file '' @ [CHR 0x27] @ file_name @ [CHR 0x27] @
     '' with unsupported extension '' @ [CHR 0x27] @ extension @ [CHR 0x27] @ ''.''"

definition started_msg :: "operation \<Rightarrow> string" where
  "started_msg op = ''Started Vertex AI Search import operation: '' @ operation_name op"

definition success_msg :: "string \<Rightarrow> string" where
  "success_msg gcs_uri = ''Successfully triggered import for: '' @ gcs_uri"

definition api_error_msg :: "string \<Rightarrow> string \<Rightarrow> string" where
  "api_error_msg gcs_uri detail =
     ''Error calling Vertex AI Search API for file '' @ gcs_uri @ '': '' @ detail"

definition build_request :: "string \<Rightarrow> string \<Rightarrow> string \<Rightarrow> string \<Rightarrow> ImportDocumentsRequest" where
  \<comment> \<open>lines 53 to 67 of the source\<close>
  "build_request project location data_store gcs_uri =
     \<lparr>parent = branch_path project location data_store ''default_branch'',
      gcs_source = \<lparr>input_uris = [gcs_uri], data_schema = ''content''\<rparr>,
      reconciliation_mode = INCREMENTAL\<rparr>"

definition submit :: "client \<Rightarrow> string \<Rightarrow> ImportDocumentsRequest \<Rightarrow> effect list \<Rightarrow> outcome" where
  \<comment> \<open>the \<^verbatim>\<open>try\<close> statement: \<open>printed\<close> is what has been printed so far\<close>
  "submit import_documents gcs_uri request printed =
     (case import_documents request of
        Inr op \<Rightarrow>
          \<lparr>trace = printed @ [ImportDocuments request, Print (started_msg op),
                              Print (success_msg gcs_uri)],
           raised = None\<rparr>
      | Inl (GoogleAPICallError e) \<Rightarrow>
          \<lparr>trace = printed @ [ImportDocuments request, Print (api_error_msg gcs_uri e)],
           raised = Some (GoogleAPICallError e)\<rparr>
      | Inl (OtherException e) \<Rightarrow>
          \<lparr>trace = printed @ [ImportDocuments request], raised = Some (OtherException e)\<rparr>)"

definition update_vertex_search :: "env \<Rightarrow> client \<Rightarrow> cloud_event \<Rightarrow> outcome" where
  "update_vertex_search e import_documents cloud_event =
     (let bucket_name = data cloud_event ''bucket'';
          file_name = data cloud_event ''name''
      in if \<not> all_py [bucket_name, file_name, PROJECT_ID e, LOCATION e, DATA_STORE_ID e]
         then \<lparr>trace = [Print missing_msg], raised = None\<rparr>
         else
           let b = the bucket_name; f = the file_name;
               printed = [Print (processing_msg b f)];
               extension = snd (splitext f)
           in if lower extension \<notin> ALLOWED_EXTENSIONS
              then \<lparr>trace = printed @ [Print (skipping_msg f extension)], raised = None\<rparr>
              else
                let gcs_uri = gcs_uri_of b f;
                    request = build_request (the (PROJECT_ID e)) (the (LOCATION e))
                                (the (DATA_STORE_ID e)) gcs_uri
                in submit import_documents gcs_uri request printed)"

subsection \<open>Reading a trace\<close>

fun calls :: "effect list \<Rightarrow> ImportDocumentsRequest list" where
  "calls [] = []"
| "calls (Print s # es) = calls es"
| "calls (ImportDocuments r # es) = r # calls es"

fun logs :: "effect list \<Rightarrow> string list" where
  "logs [] = []"
| "logs (Print s # es) = s # logs es"
| "logs (ImportDocuments r # es) = logs es"

fun upto_submission :: "effect list \<Rightarrow> effect list" where
  \<comment> \<open>what an invocation has done when \<^verbatim>\<open>import_documents\<close> is entered: the lines
      printed so far and the request, or the whole trace when nothing is submitted\<close>
  "upto_submission [] = []"
| "upto_submission (Print s # es) = Print s # upto_submission es"
| "upto_submission (ImportDocuments r # es) = [ImportDocuments r]"

subsection \<open>Concrete inputs\<close>

definition example_env :: env where
  "example_env =
     \<lparr>PROJECT_ID = Some ''my-project'', LOCATION = Some ''global'',
      DATA_STORE_ID = Some ''my-store''\<rparr>"

definition example_event :: "string \<Rightarrow> string \<Rightarrow> cloud_event" where
  "example_event b n = \<lparr>data = [''bucket'' \<mapsto> b, ''name'' \<mapsto> n]\<rparr>"

definition accepting_client :: client where
  "accepting_client r = Inr \<lparr>operation_name = ''operations/import-1''\<rparr>"

definition failing_client :: "exn \<Rightarrow> client" where
  "failing_client x r = Inl x"

section \<open>Properties\<close>

subsection \<open>The branches of the handler\<close>

lemma calls_append: "calls (xs @ ys) = calls xs @ calls ys"
  by (induction xs rule: calls.induct) simp_all

lemma logs_append: "logs (xs @ ys) = logs xs @ logs ys"
  by (induction xs rule: logs.induct) simp_all

lemma truthy_iff: "truthy v \<longleftrightarrow> (\<exists>s. v = Some s \<and> s \<noteq> [])"
  by (cases v) (simp_all add: truthy_def)

lemma all_py5:
  "all_py [a, b, c, d, e] \<longleftrightarrow> truthy a \<and> truthy b \<and> truthy c \<and> truthy d \<and> truthy e"
  by (simp add: all_py_def)

lemma trace_submit:
  "trace (submit c u r pr) = pr @ ImportDocuments r #
     (case c r of
        Inr op \<Rightarrow> [Print (started_msg op), Print (success_msg u)]
      | Inl (GoogleAPICallError x) \<Rightarrow> [Print (api_error_msg u x)]
      | Inl (OtherException x) \<Rightarrow> [])"
  by (simp add: submit_def split: sum.split exn.split)

lemma raised_submit:
  "raised (submit c u r pr) = (case c r of Inr op \<Rightarrow> None | Inl x \<Rightarrow> Some x)"
  by (simp add: submit_def split: sum.split exn.split)

lemma calls_submit:
  "calls (trace (submit c u r pr)) = calls pr @ [r]"
  by (simp add: submit_def calls_append split: sum.split exn.split)

lemma uvs_missing:
  "\<not> all_py [data ev ''bucket'', data ev ''name'', PROJECT_ID e, LOCATION e, DATA_STORE_ID e]
   \<Longrightarrow> update_vertex_search e c ev = \<lparr>trace = [Print missing_msg], raised = None\<rparr>"
  by (simp add: update_vertex_search_def)

lemma uvs_skip:
  assumes "all_py [data ev ''bucket'', data ev ''name'', PROJECT_ID e, LOCATION e, DATA_STORE_ID e]"
    and "data ev ''bucket'' = Some b" and "data ev ''name'' = Some f"
    and "lower (snd (splitext f)) \<notin> ALLOWED_EXTENSIONS"
  shows "update_vertex_search e c ev =
    \<lparr>trace = [Print (processing_msg b f), Print (skipping_msg f (snd (splitext f)))],
     raised = None\<rparr>"
  using assms by (simp add: update_vertex_search_def Let_def)

lemma uvs_submit:
  assumes "all_py [data ev ''bucket'', data ev ''name'', PROJECT_ID e, LOCATION e, DATA_STORE_ID e]"
    and "data ev ''bucket'' = Some b" and "data ev ''name'' = Some f"
    and "PROJECT_ID e = Some p" and "LOCATION e = Some l" and "DATA_STORE_ID e = Some d"
    and "lower (snd (splitext f)) \<in> ALLOWED_EXTENSIONS"
  shows "update_vertex_search e c ev =
    submit c (gcs_uri_of b f) (build_request p l d (gcs_uri_of b f)) [Print (processing_msg b f)]"
  using assms by (simp add: update_vertex_search_def Let_def)

lemmas eval_defs = example_env_def example_event_def accepting_client_def failing_client_def
  update_vertex_search_def all_py_def truthy_def Let_def
  splitext_def rfind_def skip_leading_dots.simps slice_def lower_def lower_char_def
  ALLOWED_EXTENSIONS_def submit_def build_request_def

lemmas msg_defs = gcs_uri_of_def missing_msg_def processing_msg_def skipping_msg_def
  started_msg_def success_msg_def api_error_msg_def

subsection \<open>When a request is submitted\<close>

text \<open>
  C1: \<^verbatim>\<open>import_documents\<close> is called only when the bucket, the object name,
  \<^verbatim>\<open>PROJECT_ID\<close>, \<^verbatim>\<open>LOCATION\<close> and \<^verbatim>\<open>DATA_STORE_ID\<close> are all present and
  non-empty and the lower-cased extension of the object name is one of the six allowed
  extensions; in every other case no call is made.
\<close>

theorem import_only_when_valid_and_allowed:
  "(calls (trace (update_vertex_search e c ev)) \<noteq> [] \<longrightarrow>
      (\<exists>b f p l d. data ev ''bucket'' = Some b \<and> b \<noteq> [] \<and>
         data ev ''name'' = Some f \<and> f \<noteq> [] \<and>
         PROJECT_ID e = Some p \<and> p \<noteq> [] \<and> LOCATION e = Some l \<and> l \<noteq> [] \<and>
         DATA_STORE_ID e = Some d \<and> d \<noteq> [] \<and>
         lower (snd (splitext f)) \<in> ALLOWED_EXTENSIONS))
   \<and> (\<not> (\<exists>b f p l d. data ev ''bucket'' = Some b \<and> b \<noteq> [] \<and>
         data ev ''name'' = Some f \<and> f \<noteq> [] \<and>
         PROJECT_ID e = Some p \<and> p \<noteq> [] \<and> LOCATION e = Some l \<and> l \<noteq> [] \<and>
         DATA_STORE_ID e = Some d \<and> d \<noteq> [] \<and>
         lower (snd (splitext f)) \<in> ALLOWED_EXTENSIONS) \<longrightarrow>
       calls (trace (update_vertex_search e c ev)) = [])"
proof -
  let ?ok = "\<exists>b f p l d. data ev ''bucket'' = Some b \<and> b \<noteq> [] \<and>
         data ev ''name'' = Some f \<and> f \<noteq> [] \<and>
         PROJECT_ID e = Some p \<and> p \<noteq> [] \<and> LOCATION e = Some l \<and> l \<noteq> [] \<and>
         DATA_STORE_ID e = Some d \<and> d \<noteq> [] \<and>
         lower (snd (splitext f)) \<in> ALLOWED_EXTENSIONS"
  have "calls (trace (update_vertex_search e c ev)) = []" if no: "\<not> ?ok"
  proof (cases "all_py [data ev ''bucket'', data ev ''name'', PROJECT_ID e, LOCATION e,
                        DATA_STORE_ID e]")
    case False
    then show ?thesis by (simp add: uvs_missing)
  next
    case True
    then obtain b f p l d where v: "data ev ''bucket'' = Some b" "b \<noteq> []"
      "data ev ''name'' = Some f" "f \<noteq> []" "PROJECT_ID e = Some p" "p \<noteq> []"
      "LOCATION e = Some l" "l \<noteq> []" "DATA_STORE_ID e = Some d" "d \<noteq> []"
      unfolding all_py5 truthy_iff by blast
    with no have "lower (snd (splitext f)) \<notin> ALLOWED_EXTENSIONS" by blast
    from uvs_skip [OF True v(1) v(3) this] show ?thesis by simp
  qed
  then show ?thesis by blast
qed

theorem import_only_when_valid_and_allowed_witness:
  "(calls (trace (update_vertex_search example_env accepting_client
        (example_event ''my-bucket'' ''reports/q1.pdf''))) \<noteq> [] \<and>
    lower (snd (splitext ''reports/q1.pdf'')) \<in> ALLOWED_EXTENSIONS) \<and>
   (lower (snd (splitext ''notes.md'')) \<notin> ALLOWED_EXTENSIONS \<and>
    calls (trace (update_vertex_search example_env accepting_client
        (example_event ''my-bucket'' ''notes.md''))) = [])"
proof -
  have a: "calls (trace (update_vertex_search example_env accepting_client
        (example_event ''my-bucket'' ''reports/q1.pdf''))) \<noteq> []"
    by (simp add: eval_defs)
  have b: "lower (snd (splitext ''notes.md'')) \<notin> ALLOWED_EXTENSIONS"
    by (simp add: eval_defs)
  have n: "data (example_event ''my-bucket'' ''notes.md'') ''name'' = Some ''notes.md''"
    by (simp add: example_event_def)
  from a import_only_when_valid_and_allowed
    [of example_env accepting_client "example_event ''my-bucket'' ''reports/q1.pdf''"]
  have "lower (snd (splitext ''reports/q1.pdf'')) \<in> ALLOWED_EXTENSIONS"
    by (auto simp: example_event_def)
  moreover from b n import_only_when_valid_and_allowed
    [of example_env accepting_client "example_event ''my-bucket'' ''notes.md''"]
  have "calls (trace (update_vertex_search example_env accepting_client
        (example_event ''my-bucket'' ''notes.md''))) = []"
    by auto
  ultimately show ?thesis using a b by blast
qed

text \<open>
  C2: when the five values are non-empty and the extension is allowed, exactly one request is
  submitted; its URI list is the one-element list \<^verbatim>\<open>gs://{bucket}/{name}\<close>, its data
  schema is \<^verbatim>\<open>content\<close>, its reconciliation mode is \<^verbatim>\<open>INCREMENTAL\<close>, and its
  parent is the branch path of \<^verbatim>\<open>PROJECT_ID\<close>, \<^verbatim>\<open>LOCATION\<close> and
  \<^verbatim>\<open>DATA_STORE_ID\<close>, which ends in \<^verbatim>\<open>/branches/default_branch\<close>. For the bucket
  \<^verbatim>\<open>my-bucket\<close> and the name \<^verbatim>\<open>reports/q1.pdf\<close> the URI is
  \<^verbatim>\<open>gs://my-bucket/reports/q1.pdf\<close>.
\<close>

theorem submitted_request_shape:
  assumes "data ev ''bucket'' = Some b" and "b \<noteq> []"
    and "data ev ''name'' = Some f" and "f \<noteq> []"
    and "PROJECT_ID e = Some p" and "p \<noteq> []"
    and "LOCATION e = Some l" and "l \<noteq> []"
    and "DATA_STORE_ID e = Some d" and "d \<noteq> []"
    and "lower (snd (splitext f)) \<in> ALLOWED_EXTENSIONS"
  shows "\<exists>r. calls (trace (update_vertex_search e c ev)) = [r] \<and>
           input_uris (gcs_source r) = [''gs://'' @ b @ ''/'' @ f] \<and>
           data_schema (gcs_source r) = ''content'' \<and>
           reconciliation_mode r = INCREMENTAL \<and>
           parent r = branch_path p l d ''default_branch'' \<and>
           (\<exists>pre. parent r = pre @ ''/branches/default_branch'') \<and>
           (b = ''my-bucket'' \<and> f = ''reports/q1.pdf'' \<longrightarrow>
              input_uris (gcs_source r) = [''gs://my-bucket/reports/q1.pdf''])"
proof -
  have v: "all_py [data ev ''bucket'', data ev ''name'', PROJECT_ID e, LOCATION e,
                   DATA_STORE_ID e]"
    using assms by (simp add: all_py5 truthy_iff)
  let ?r = "build_request p l d (gcs_uri_of b f)"
  have "calls (trace (update_vertex_search e c ev)) = [?r]"
    using uvs_submit [OF v assms(1,3,5,7,9,11)] by (simp add: calls_submit)
  moreover have "parent ?r =
      (''projects/'' @ p @ ''/locations/'' @ l @
       ''/collections/default_collection/dataStores/'' @ d) @
      ''/branches/default_branch''"
    by (simp add: build_request_def branch_path_def)
  then have "\<exists>pre. parent ?r = pre @ ''/branches/default_branch''" by blast
  moreover have "input_uris (gcs_source ?r) = [''gs://'' @ b @ ''/'' @ f]"
      "data_schema (gcs_source ?r) = ''content''" "reconciliation_mode ?r = INCREMENTAL"
      "parent ?r = branch_path p l d ''default_branch''"
    by (simp_all add: build_request_def gcs_uri_of_def)
  moreover have "b = ''my-bucket'' \<and> f = ''reports/q1.pdf'' \<longrightarrow>
              input_uris (gcs_source ?r) = [''gs://my-bucket/reports/q1.pdf'']"
    by (simp add: build_request_def gcs_uri_of_def)
  ultimately show ?thesis by blast
qed

theorem submitted_request_shape_witness:
  "\<exists>r. calls (trace (update_vertex_search example_env accepting_client
            (example_event ''my-bucket'' ''reports/q1.pdf''))) = [r] \<and>
       input_uris (gcs_source r) = [''gs://my-bucket/reports/q1.pdf''] \<and>
       data_schema (gcs_source r) = ''content'' \<and>
       reconciliation_mode r = INCREMENTAL \<and>
       parent r = branch_path ''my-project'' ''global'' ''my-store'' ''default_branch'' \<and>
       (\<exists>pre. parent r = pre @ ''/branches/default_branch'')"
proof -
  have ext: "lower (snd (splitext ''reports/q1.pdf'')) \<in> ALLOWED_EXTENSIONS"
    by (simp add: eval_defs)
  have "\<exists>r. calls (trace (update_vertex_search example_env accepting_client
            (example_event ''my-bucket'' ''reports/q1.pdf''))) = [r] \<and>
           input_uris (gcs_source r) = [''gs://'' @ ''my-bucket'' @ ''/'' @ ''reports/q1.pdf''] \<and>
           data_schema (gcs_source r) = ''content'' \<and>
           reconciliation_mode r = INCREMENTAL \<and>
           parent r = branch_path ''my-project'' ''global'' ''my-store'' ''default_branch'' \<and>
           (\<exists>pre. parent r = pre @ ''/branches/default_branch'') \<and>
           (''my-bucket'' = ''my-bucket'' \<and> ''reports/q1.pdf'' = ''reports/q1.pdf'' \<longrightarrow>
              input_uris (gcs_source r) = [''gs://my-bucket/reports/q1.pdf''])"
    by (rule submitted_request_shape
          [where e = example_env and ev = "example_event ''my-bucket'' ''reports/q1.pdf''",
           OF _ _ _ _ _ _ _ _ _ _ ext])
       (simp_all add: example_env_def example_event_def)
  then show ?thesis by blast
qed

subsection \<open>How many submissions\<close>

text \<open>
  C8: an invocation never calls \<^verbatim>\<open>import_documents\<close> more than once, whatever the
  event, the configuration and the client's answer.
\<close>

theorem at_most_one_submission:
  "length (calls (trace (update_vertex_search e c ev))) \<le> 1"
  by (simp add: update_vertex_search_def Let_def calls_submit)

subsection \<open>Missing fields\<close>

lemma example_fields:
  "data (example_event b n) ''bucket'' = Some b" "data (example_event b n) ''name'' = Some n"
  "PROJECT_ID example_env = Some ''my-project''" "LOCATION example_env = Some ''global''"
  "DATA_STORE_ID example_env = Some ''my-store''"
  by (simp_all add: example_event_def example_env_def)

text \<open>
  C4: when the bucket, the name or one of the three configuration values is missing or
  empty, the handler prints the error line and nothing else, submits nothing, and returns
  without raising.
\<close>

theorem missing_fields_noop:
  assumes "\<not> (truthy (data ev ''bucket'') \<and> truthy (data ev ''name'') \<and>
              truthy (PROJECT_ID e) \<and> truthy (LOCATION e) \<and> truthy (DATA_STORE_ID e))"
  shows "trace (update_vertex_search e c ev) = [Print missing_msg] \<and>
         calls (trace (update_vertex_search e c ev)) = [] \<and>
         raised (update_vertex_search e c ev) = None"
proof -
  have "\<not> all_py [data ev ''bucket'', data ev ''name'', PROJECT_ID e, LOCATION e,
                   DATA_STORE_ID e]"
    using assms by (simp add: all_py5)
  then show ?thesis by (simp add: uvs_missing)
qed

theorem missing_fields_noop_witness:
  "\<not> truthy (data (example_event ''my-bucket'' []) ''name'') \<and>
   trace (update_vertex_search example_env (failing_client (GoogleAPICallError ''503 unavailable''))
            (example_event ''my-bucket'' [])) = [Print missing_msg] \<and>
   raised (update_vertex_search example_env (failing_client (GoogleAPICallError ''503 unavailable''))
            (example_event ''my-bucket'' [])) = None"
proof -
  have h: "\<not> truthy (data (example_event ''my-bucket'' []) ''name'')"
    by (simp add: example_event_def truthy_def)
  then have "\<not> (truthy (data (example_event ''my-bucket'' []) ''bucket'') \<and>
      truthy (data (example_event ''my-bucket'' []) ''name'') \<and> truthy (PROJECT_ID example_env) \<and>
      truthy (LOCATION example_env) \<and> truthy (DATA_STORE_ID example_env))"
    by blast
  from missing_fields_noop [OF this] h show ?thesis by blast
qed

subsection \<open>Failure of the submission\<close>

text \<open>
  As stated, C3 promises the error line for any failure of \<^verbatim>\<open>import_documents\<close>. The
  \<^verbatim>\<open>except\<close> clause names \<^verbatim>\<open>GoogleAPICallError\<close> only: a failure of another
  class leaves the handler without passing through it, so only the line printed before the
  call is there.
\<close>

theorem other_failure_not_logged:
  "logs (trace (update_vertex_search example_env
           (failing_client (OtherException ''Deadline of 60.0s exceeded''))
           (example_event ''my-bucket'' ''reports/q1.pdf''))) =
     [''Processing file: gs://my-bucket/reports/q1.pdf''] \<and>
   raised (update_vertex_search example_env
           (failing_client (OtherException ''Deadline of 60.0s exceeded''))
           (example_event ''my-bucket'' ''reports/q1.pdf'')) =
     Some (OtherException ''Deadline of 60.0s exceeded'')"
  by (simp add: eval_defs msg_defs)

text \<open>
  C3, amended: when \<^verbatim>\<open>import_documents\<close> raises, the handler raises that same failure,
  whatever its class. When the failure is a \<^verbatim>\<open>GoogleAPICallError\<close>, the handler has
  printed, after the processing line, one error line that names the URI and the failure
  detail; for a failure of another class it prints no error line.
\<close>

theorem submission_failure_propagates:
  assumes "data ev ''bucket'' = Some b" and "b \<noteq> []"
    and "data ev ''name'' = Some f" and "f \<noteq> []"
    and "PROJECT_ID e = Some p" and "p \<noteq> []"
    and "LOCATION e = Some l" and "l \<noteq> []"
    and "DATA_STORE_ID e = Some d" and "d \<noteq> []"
    and "lower (snd (splitext f)) \<in> ALLOWED_EXTENSIONS"
    and "c (build_request p l d (gcs_uri_of b f)) = Inl x"
  shows "raised (update_vertex_search e c ev) = Some x \<and>
         logs (trace (update_vertex_search e c ev)) =
           (case x of
              GoogleAPICallError detail \<Rightarrow>
                [processing_msg b f, api_error_msg (gcs_uri_of b f) detail]
            | OtherException detail \<Rightarrow> [processing_msg b f])"
proof -
  have v: "all_py [data ev ''bucket'', data ev ''name'', PROJECT_ID e, LOCATION e,
                   DATA_STORE_ID e]"
    using assms by (simp add: all_py5 truthy_iff)
  show ?thesis
    using uvs_submit [OF v assms(1,3,5,7,9,11)] assms(12)
    by (simp add: trace_submit raised_submit split: exn.split)
qed

theorem submission_failure_propagates_witness:
  "raised (update_vertex_search example_env (failing_client (GoogleAPICallError ''403 denied''))
            (example_event ''my-bucket'' ''reports/q1.pdf'')) =
     Some (GoogleAPICallError ''403 denied'') \<and>
   logs (trace (update_vertex_search example_env (failing_client (GoogleAPICallError ''403 denied''))
            (example_event ''my-bucket'' ''reports/q1.pdf''))) =
     [''Processing file: gs://my-bucket/reports/q1.pdf'',
      ''Error calling Vertex AI Search API for file gs://my-bucket/reports/q1.pdf: 403 denied'']"
proof -
  have ext: "lower (snd (splitext ''reports/q1.pdf'')) \<in> ALLOWED_EXTENSIONS"
    by (simp add: eval_defs)
  have r: "failing_client (GoogleAPICallError ''403 denied'')
             (build_request ''my-project'' ''global'' ''my-store''
                (gcs_uri_of ''my-bucket'' ''reports/q1.pdf'')) =
           Inl (GoogleAPICallError ''403 denied'')"
    by (simp add: failing_client_def)
  from submission_failure_propagates
      [where c = "failing_client (GoogleAPICallError ''403 denied'')" and e = example_env
         and ev = "example_event ''my-bucket'' ''reports/q1.pdf''",
       OF example_fields(1) _ example_fields(2) _ example_fields(3) _ example_fields(4) _
         example_fields(5) _ ext r]
  show ?thesis by (simp add: msg_defs)
qed

subsection \<open>Effects of each branch\<close>

text \<open>
  As stated, C7 promises exactly one log line on every branch. The processing line is printed
  before the extension is looked at, so a skipped file already gives two lines.
\<close>

theorem skip_branch_two_log_lines:
  "logs (trace (update_vertex_search example_env accepting_client
           (example_event ''my-bucket'' ''notes.md''))) =
     [processing_msg ''my-bucket'' ''notes.md'', skipping_msg ''notes.md'' ''.md''] \<and>
   length (logs (trace (update_vertex_search example_env accepting_client
           (example_event ''my-bucket'' ''notes.md'')))) \<noteq> 1"
  by (simp add: eval_defs)

text \<open>
  C7, amended: every invocation makes zero or one call of \<^verbatim>\<open>import_documents\<close>. It
  prints one line and makes no call when a field is missing; two lines and no call when the
  extension is not allowed; and with an allowed extension it makes one call and prints three
  lines when the call returns, two when it raises a \<^verbatim>\<open>GoogleAPICallError\<close>, and one
  when it raises anything else.
\<close>

theorem effects_per_branch:
  "length (calls (trace (update_vertex_search e c ev))) \<le> 1 \<and>
   (\<not> all_py [data ev ''bucket'', data ev ''name'', PROJECT_ID e, LOCATION e, DATA_STORE_ID e] \<longrightarrow>
      length (logs (trace (update_vertex_search e c ev))) = 1 \<and>
      calls (trace (update_vertex_search e c ev)) = []) \<and>
   (all_py [data ev ''bucket'', data ev ''name'', PROJECT_ID e, LOCATION e, DATA_STORE_ID e] \<and>
    data ev ''name'' = Some f \<and> lower (snd (splitext f)) \<notin> ALLOWED_EXTENSIONS \<longrightarrow>
      length (logs (trace (update_vertex_search e c ev))) = 2 \<and>
      calls (trace (update_vertex_search e c ev)) = []) \<and>
   (all_py [data ev ''bucket'', data ev ''name'', PROJECT_ID e, LOCATION e, DATA_STORE_ID e] \<and>
    data ev ''name'' = Some f \<and> lower (snd (splitext f)) \<in> ALLOWED_EXTENSIONS \<longrightarrow>
      length (calls (trace (update_vertex_search e c ev))) = 1 \<and>
      length (logs (trace (update_vertex_search e c ev))) =
        (case raised (update_vertex_search e c ev) of
           None \<Rightarrow> 3
         | Some (GoogleAPICallError detail) \<Rightarrow> 2
         | Some (OtherException detail) \<Rightarrow> 1))"
proof -
  have 1: "length (calls (trace (update_vertex_search e c ev))) \<le> 1"
    by (simp add: update_vertex_search_def Let_def calls_submit)
  have 2: "length (logs (trace (update_vertex_search e c ev))) = 1 \<and>
      calls (trace (update_vertex_search e c ev)) = []"
    if "\<not> all_py [data ev ''bucket'', data ev ''name'', PROJECT_ID e, LOCATION e, DATA_STORE_ID e]"
    using that by (simp add: uvs_missing)
  have 3: "length (logs (trace (update_vertex_search e c ev))) = 2 \<and>
      calls (trace (update_vertex_search e c ev)) = []"
    if "all_py [data ev ''bucket'', data ev ''name'', PROJECT_ID e, LOCATION e, DATA_STORE_ID e]"
      "data ev ''name'' = Some f" "lower (snd (splitext f)) \<notin> ALLOWED_EXTENSIONS"
    using that by (simp add: update_vertex_search_def Let_def)
  have 4: "length (calls (trace (update_vertex_search e c ev))) = 1 \<and>
      length (logs (trace (update_vertex_search e c ev))) =
        (case raised (update_vertex_search e c ev) of
           None \<Rightarrow> 3
         | Some (GoogleAPICallError detail) \<Rightarrow> 2
         | Some (OtherException detail) \<Rightarrow> 1)"
    if "all_py [data ev ''bucket'', data ev ''name'', PROJECT_ID e, LOCATION e, DATA_STORE_ID e]"
      "data ev ''name'' = Some f" "lower (snd (splitext f)) \<in> ALLOWED_EXTENSIONS"
    using that
    by (simp add: update_vertex_search_def Let_def calls_submit trace_submit raised_submit
          logs_append split: sum.split exn.split)
  from 1 2 3 4 show ?thesis by blast
qed

theorem effects_per_branch_witness:
  "length (logs (trace (update_vertex_search example_env accepting_client
      (example_event ''my-bucket'' [])))) = 1 \<and>
   length (logs (trace (update_vertex_search example_env accepting_client
      (example_event ''my-bucket'' ''notes.md'')))) = 2 \<and>
   length (logs (trace (update_vertex_search example_env accepting_client
      (example_event ''my-bucket'' ''reports/q1.pdf'')))) = 3 \<and>
   length (calls (trace (update_vertex_search example_env accepting_client
      (example_event ''my-bucket'' ''reports/q1.pdf'')))) = 1"
proof -
  have m: "\<not> all_py [data (example_event ''my-bucket'' []) ''bucket'',
      data (example_event ''my-bucket'' []) ''name'', PROJECT_ID example_env,
      LOCATION example_env, DATA_STORE_ID example_env]"
    by (simp add: all_py5 truthy_def example_fields)
  have v: "all_py [data (example_event ''my-bucket'' n) ''bucket'',
      data (example_event ''my-bucket'' n) ''name'', PROJECT_ID example_env,
      LOCATION example_env, DATA_STORE_ID example_env]" if "n \<noteq> []" for n
    using that by (simp add: all_py5 truthy_def example_fields)
  have s: "lower (snd (splitext ''notes.md'')) \<notin> ALLOWED_EXTENSIONS"
    and a: "lower (snd (splitext ''reports/q1.pdf'')) \<in> ALLOWED_EXTENSIONS"
    by (simp_all add: eval_defs)
  have ok: "raised (update_vertex_search example_env accepting_client
      (example_event ''my-bucket'' ''reports/q1.pdf'')) = None"
    by (simp add: eval_defs)
  from m effects_per_branch [of example_env accepting_client "example_event ''my-bucket'' []"]
  have "length (logs (trace (update_vertex_search example_env accepting_client
      (example_event ''my-bucket'' [])))) = 1"
    by blast
  moreover from s v [of "''notes.md''"] example_fields(2) [of "''my-bucket''" "''notes.md''"]
    effects_per_branch [of example_env accepting_client
      "example_event ''my-bucket'' ''notes.md''" "''notes.md''"]
  have "length (logs (trace (update_vertex_search example_env accepting_client
      (example_event ''my-bucket'' ''notes.md'')))) = 2"
    by simp
  moreover from a v [of "''reports/q1.pdf''"]
    example_fields(2) [of "''my-bucket''" "''reports/q1.pdf''"]
    effects_per_branch [of example_env accepting_client
      "example_event ''my-bucket'' ''reports/q1.pdf''" "''reports/q1.pdf''"]
  have "length (logs (trace (update_vertex_search example_env accepting_client
      (example_event ''my-bucket'' ''reports/q1.pdf'')))) = 3 \<and>
    length (calls (trace (update_vertex_search example_env accepting_client
      (example_event ''my-bucket'' ''reports/q1.pdf'')))) = 1"
    by (simp add: ok)
  ultimately show ?thesis by blast
qed

subsection \<open>Determinism\<close>

text \<open>
  C10: the handler is a function of the startup configuration, of the two payload fields
  \<^verbatim>\<open>bucket\<close> and \<^verbatim>\<open>name\<close> and of the client's answer, and of nothing else. Two
  invocations under the same configuration whose payloads agree on those two fields do the
  same up to and including the submission (the same lines printed, the same request or none),
  whatever else the payloads hold and whatever the client answers.
\<close>

theorem deterministic_up_to_response:
  assumes "data ev1 ''bucket'' = data ev2 ''bucket''"
    and "data ev1 ''name'' = data ev2 ''name''"
  shows "upto_submission (trace (update_vertex_search e c1 ev1)) =
           upto_submission (trace (update_vertex_search e c2 ev2)) \<and>
         calls (trace (update_vertex_search e c1 ev1)) =
           calls (trace (update_vertex_search e c2 ev2))"
proof
  show "upto_submission (trace (update_vertex_search e c1 ev1)) =
          upto_submission (trace (update_vertex_search e c2 ev2))"
    using assms by (simp add: update_vertex_search_def Let_def trace_submit)
  show "calls (trace (update_vertex_search e c1 ev1)) =
          calls (trace (update_vertex_search e c2 ev2))"
    using assms by (simp add: update_vertex_search_def Let_def calls_submit)
qed

theorem deterministic_up_to_response_witness:
  "upto_submission (trace (update_vertex_search example_env accepting_client
      (example_event ''my-bucket'' ''reports/q1.pdf''))) =
   upto_submission (trace (update_vertex_search example_env
      (failing_client (GoogleAPICallError ''429 quota''))
      \<lparr>data = [''generation'' \<mapsto> ''17'', ''bucket'' \<mapsto> ''my-bucket'',
                ''name'' \<mapsto> ''reports/q1.pdf'']\<rparr>)) \<and>
   trace (update_vertex_search example_env accepting_client
      (example_event ''my-bucket'' ''reports/q1.pdf'')) \<noteq>
   trace (update_vertex_search example_env
      (failing_client (GoogleAPICallError ''429 quota''))
      \<lparr>data = [''generation'' \<mapsto> ''17'', ''bucket'' \<mapsto> ''my-bucket'',
                ''name'' \<mapsto> ''reports/q1.pdf'']\<rparr>)"
proof -
  have b: "data (example_event ''my-bucket'' ''reports/q1.pdf'') ''bucket'' =
      data \<lparr>data = [''generation'' \<mapsto> ''17'', ''bucket'' \<mapsto> ''my-bucket'',
                ''name'' \<mapsto> ''reports/q1.pdf'']\<rparr> ''bucket''"
    and n: "data (example_event ''my-bucket'' ''reports/q1.pdf'') ''name'' =
      data \<lparr>data = [''generation'' \<mapsto> ''17'', ''bucket'' \<mapsto> ''my-bucket'',
                ''name'' \<mapsto> ''reports/q1.pdf'']\<rparr> ''name''"
    by (simp_all add: example_event_def)
  have d: "trace (update_vertex_search example_env accepting_client
      (example_event ''my-bucket'' ''reports/q1.pdf'')) \<noteq>
   trace (update_vertex_search example_env
      (failing_client (GoogleAPICallError ''429 quota''))
      \<lparr>data = [''generation'' \<mapsto> ''17'', ''bucket'' \<mapsto> ''my-bucket'',
                ''name'' \<mapsto> ''reports/q1.pdf'']\<rparr>)"
    by (simp add: eval_defs)
  from deterministic_up_to_response [OF b n] d show ?thesis by blast
qed

subsection \<open>What \<open>splitext\<close> computes\<close>

lemma rfind_from_append:
  "rfind_from c (xs @ ys) i r = rfind_from c ys (i + int (length xs)) (rfind_from c xs i r)"
  by (induction xs arbitrary: i r) (simp_all add: algebra_simps)

lemma rfind_from_notin: "c \<notin> set xs \<Longrightarrow> rfind_from c xs i r = r"
  by (induction xs arbitrary: i r) auto

lemma rfind_from_less: "r < i \<Longrightarrow> rfind_from c xs i r < i + int (length xs)"
proof (induction xs arbitrary: i r)
  case Nil
  then show ?case by simp
next
  case (Cons x xs)
  have "rfind_from c xs (i + 1) (if x = c then i else r) < (i + 1) + int (length xs)"
    using Cons.prems by (intro Cons.IH) simp
  then show ?case by simp
qed

lemma rfind_last: "c \<notin> set ys \<Longrightarrow> rfind (xs @ c # ys) c = int (length xs)"
  by (simp add: rfind_def rfind_from_append rfind_from_notin)

lemma rfind_less: "rfind p c < int (length p)"
  using rfind_from_less [of "- 1" 0 c p] by (simp add: rfind_def)

lemma rfind_append_notin: "c \<notin> set ys \<Longrightarrow> rfind (xs @ ys) c = rfind xs c"
  by (simp add: rfind_def rfind_from_append rfind_from_notin)

lemma rfind_sep:
  assumes "dir = [] \<or> last dir = c" and "c \<notin> set base"
  shows "rfind (dir @ base) c = int (length dir) - 1"
proof (cases "dir = []")
  case True
  then show ?thesis using assms(2) by (simp add: rfind_def rfind_from_notin)
next
  case False
  with assms(1) have "dir = butlast dir @ [c]"
    by (metis append_butlast_last_id)
  then obtain d where d: "dir = d @ [c]" ..
  have "rfind (d @ c # base) c = int (length d)"
    using assms(2) by (rule rfind_last)
  then show ?thesis by (simp add: d)
qed

lemma skip_leading_dots_done:
  "\<not> f < d \<Longrightarrow> skip_leading_dots p f d = (p, [])"
  by (subst skip_leading_dots.simps) simp

lemma skip_leading_dots_found:
  "f < d \<Longrightarrow> slice p f (f + 1) \<noteq> ''.'' \<Longrightarrow>
   skip_leading_dots p f d = (take (nat d) p, drop (nat d) p)"
  by (subst skip_leading_dots.simps) simp

lemma skip_leading_dots_next:
  "f < d \<Longrightarrow> slice p f (f + 1) = ''.'' \<Longrightarrow>
   skip_leading_dots p f d = skip_leading_dots p (f + 1) d"
  by (subst skip_leading_dots.simps) simp

lemma slice_at: "slice (pre @ c # cs) (int (length pre)) (int (length pre) + 1) = [c]"
  by (simp add: slice_def)

lemma skip_leading_dots_stem:
  "skip_leading_dots (pre @ stem @ suf) (int (length pre)) (int (length pre) + int (length stem)) =
     (if \<exists>c\<in>set stem. c \<noteq> CHR ''.'' then (pre @ stem, suf) else (pre @ stem @ suf, []))"
proof (induction stem arbitrary: pre)
  case Nil
  show ?case by (simp add: skip_leading_dots_done)
next
  case (Cons c cs)
  let ?p = "pre @ (c # cs) @ suf"
  let ?f = "int (length pre)"
  let ?d = "int (length pre) + int (length (c # cs))"
  have lt: "?f < ?d" by simp
  have sl: "slice ?p ?f (?f + 1) = [c]"
    using slice_at [of pre c "cs @ suf"] by simp
  show ?case
  proof (cases "c = CHR ''.''")
    case False
    then have "slice ?p ?f (?f + 1) \<noteq> ''.''" unfolding sl by simp
    with lt have "skip_leading_dots ?p ?f ?d = (take (nat ?d) ?p, drop (nat ?d) ?p)"
      by (rule skip_leading_dots_found)
    moreover have n: "nat ?d = length pre + length (c # cs)" by simp
    have "take (nat ?d) ?p = pre @ c # cs" "drop (nat ?d) ?p = suf"
      unfolding n by simp_all
    ultimately show ?thesis using False by simp
  next
    case True
    then have "slice ?p ?f (?f + 1) = ''.''" unfolding sl by simp
    with lt have "skip_leading_dots ?p ?f ?d = skip_leading_dots ?p (?f + 1) ?d"
      by (rule skip_leading_dots_next)
    also have "\<dots> = skip_leading_dots ((pre @ [c]) @ cs @ suf) (int (length (pre @ [c])))
            (int (length (pre @ [c])) + int (length cs))"
      by (simp add: algebra_simps)
    also have "\<dots> =
          (if \<exists>c\<in>set cs. c \<noteq> CHR ''.'' then ((pre @ [c]) @ cs, suf)
           else ((pre @ [c]) @ cs @ suf, []))"
      by (rule Cons.IH)
    finally show ?thesis using True by simp
  qed
qed

lemma splitext_dotted:
  assumes "dir = [] \<or> last dir = CHR ''/''" and "CHR ''/'' \<notin> set stem"
    and "CHR ''/'' \<notin> set rest" and "CHR ''.'' \<notin> set rest"
  shows "splitext (dir @ stem @ CHR ''.'' # rest) =
     (if \<exists>c\<in>set stem. c \<noteq> CHR ''.'' then (dir @ stem, CHR ''.'' # rest)
      else (dir @ stem @ CHR ''.'' # rest, []))"
proof -
  have s: "rfind (dir @ stem @ CHR ''.'' # rest) CHR ''/'' = int (length dir) - 1"
    using assms by (intro rfind_sep) auto
  have d: "rfind (dir @ stem @ CHR ''.'' # rest) CHR ''.'' = int (length dir) + int (length stem)"
    using rfind_last [OF assms(4), of "dir @ stem"] by simp
  show ?thesis
    using skip_leading_dots_stem [of dir stem "CHR ''.'' # rest"]
    by (simp add: splitext_def s d)
qed

lemma splitext_undotted:
  assumes "dir = [] \<or> last dir = CHR ''/''" and "CHR ''/'' \<notin> set base"
    and "CHR ''.'' \<notin> set base"
  shows "splitext (dir @ base) = (dir @ base, [])"
proof -
  have s: "rfind (dir @ base) CHR ''/'' = int (length dir) - 1"
    using assms by (intro rfind_sep) auto
  have "rfind (dir @ base) CHR ''.'' = rfind dir CHR ''.''"
    using assms(3) by (rule rfind_append_notin)
  then have "rfind (dir @ base) CHR ''.'' \<le> int (length dir) - 1"
    using rfind_less [of dir "CHR ''.''"] by simp
  then show ?thesis by (simp add: splitext_def s)
qed


lemma split_at_last:
  assumes "c \<in> set xs"
  shows "xs = rev (drop 1 (dropWhile (\<lambda>x. x \<noteq> c) (rev xs))) @
              c # rev (takeWhile (\<lambda>x. x \<noteq> c) (rev xs))"
proof -
  let ?P = "\<lambda>x. x \<noteq> c"
  let ?ys = "rev xs"
  from assms have ne: "dropWhile ?P ?ys \<noteq> []"
    by (simp add: dropWhile_eq_Nil_conv)
  then have "\<not> ?P (hd (dropWhile ?P ?ys))" by (rule hd_dropWhile)
  then have "hd (dropWhile ?P ?ys) = c" by simp
  with ne have d: "dropWhile ?P ?ys = c # drop 1 (dropWhile ?P ?ys)"
    by (cases "dropWhile ?P ?ys") simp_all
  have "?ys = takeWhile ?P ?ys @ dropWhile ?P ?ys" by simp
  then have "?ys = takeWhile ?P ?ys @ c # drop 1 (dropWhile ?P ?ys)"
    using d by metis
  then have "rev ?ys = rev (takeWhile ?P ?ys @ c # drop 1 (dropWhile ?P ?ys))" by metis
  then show ?thesis by simp
qed

lemma notin_last_part: "c \<notin> set (rev (takeWhile (\<lambda>x. x \<noteq> c) (rev xs)))"
  by (auto dest: set_takeWhileD)

lemma rev_split: "xs = rev (dropWhile P (rev xs)) @ rev (takeWhile P (rev xs))"
proof -
  have "rev (dropWhile P (rev xs)) @ rev (takeWhile P (rev xs)) =
        rev (takeWhile P (rev xs) @ dropWhile P (rev xs))"
    by (simp only: rev_append)
  also have "\<dots> = xs" by simp
  finally show ?thesis by (rule sym)
qed

lemma split_parts_subset: "xs = ys @ c # zs \<Longrightarrow> set ys \<subseteq> set xs \<and> set zs \<subseteq> set xs"
  by auto

lemma name_split:
  "name = rev (dropWhile (\<lambda>c. c \<noteq> CHR ''/'') (rev name)) @ spec_basename name"
  "rev (dropWhile (\<lambda>c. c \<noteq> CHR ''/'') (rev name)) = [] \<or>
   last (rev (dropWhile (\<lambda>c. c \<noteq> CHR ''/'') (rev name))) = CHR ''/''"
  "CHR ''/'' \<notin> set (spec_basename name)"
proof -
  let ?P = "\<lambda>c. c \<noteq> CHR ''/''"
  show "name = rev (dropWhile ?P (rev name)) @ spec_basename name"
    unfolding spec_basename_def by (rule rev_split)
  show "rev (dropWhile ?P (rev name)) = [] \<or> last (rev (dropWhile ?P (rev name))) = CHR ''/''"
  proof (cases "dropWhile ?P (rev name) = []")
    case True
    then show ?thesis by simp
  next
    case False
    then have "\<not> ?P (hd (dropWhile ?P (rev name)))" by (rule hd_dropWhile)
    then show ?thesis by (simp add: last_rev)
  qed
  show "CHR ''/'' \<notin> set (spec_basename name)"
    unfolding spec_basename_def by (rule notin_last_part)
qed

lemma lower_Nil_not_allowed: "lower [] \<notin> ALLOWED_EXTENSIONS"
  by (simp add: lower_def ALLOWED_EXTENSIONS_def)

lemma splitext_spec:
  "snd (splitext name) =
     (if \<exists>c\<in>set (spec_stem name). c \<noteq> CHR ''.'' then spec_suffix name else [])"
proof -
  let ?dir = "rev (dropWhile (\<lambda>c. c \<noteq> CHR ''/'') (rev name))"
  let ?base = "spec_basename name"
  let ?rest = "rev (takeWhile (\<lambda>c. c \<noteq> CHR ''.'') (rev ?base))"
  note ns = name_split [of name]
  show ?thesis
  proof (cases "CHR ''.'' \<in> set ?base")
    case True
    then have b: "?base = spec_stem name @ CHR ''.'' # ?rest"
      unfolding spec_stem_def by (rule split_at_last)
    have r: "CHR ''.'' \<notin> set ?rest" by (rule notin_last_part)
    have "set (spec_stem name) \<subseteq> set ?base \<and> set ?rest \<subseteq> set ?base"
      using b by (rule split_parts_subset)
    with ns(3) have s: "CHR ''/'' \<notin> set (spec_stem name)" "CHR ''/'' \<notin> set ?rest"
      by blast+
    have "splitext (?dir @ spec_stem name @ CHR ''.'' # ?rest) =
       (if \<exists>c\<in>set (spec_stem name). c \<noteq> CHR ''.''
        then (?dir @ spec_stem name, CHR ''.'' # ?rest)
        else (?dir @ spec_stem name @ CHR ''.'' # ?rest, []))"
      using ns(2) s r by (rule splitext_dotted)
    moreover have "?dir @ spec_stem name @ CHR ''.'' # ?rest = name"
      using ns(1) b by metis
    moreover have "spec_suffix name = CHR ''.'' # ?rest"
      using True by (simp add: spec_suffix_def)
    ultimately show ?thesis by simp
  next
    case False
    with ns(2,3) have "splitext (?dir @ ?base) = (?dir @ ?base, [])"
      by (intro splitext_undotted)
    with ns(1) have "snd (splitext name) = []" by simp
    moreover have "dropWhile (\<lambda>c. c \<noteq> CHR ''.'') (rev ?base) = []"
      using False by (auto simp: dropWhile_eq_Nil_conv)
    then have "spec_stem name = []"
      unfolding spec_stem_def by (simp only: drop_Nil rev.simps)
    ultimately show ?thesis by simp
  qed
qed


lemmas spec_defs = spec_basename_def spec_stem_def spec_suffix_def spec_extension_def

subsection \<open>Names that begin with a dot\<close>

text \<open>
  C9: when the final path component of the object name begins with a dot and has no other
  dot (the name is \<open>dir @ ''.'' @ rest\<close> with \<open>dir\<close> empty or ending in \<^verbatim>\<open>/\<close> and no
  \<^verbatim>\<open>/\<close> or \<^verbatim>\<open>.\<close> in \<open>rest\<close>), the computed extension is empty, so nothing is
  submitted, and with valid fields the file is skipped; this holds also when the dot-suffix,
  like \<^verbatim>\<open>.docx\<close>, is in the allow-set.
\<close>

theorem leading_dot_name_skipped:
  assumes "dir = [] \<or> last dir = CHR ''/''"
    and "CHR ''/'' \<notin> set rest" and "CHR ''.'' \<notin> set rest"
    and "data ev ''name'' = Some (dir @ CHR ''.'' # rest)"
  shows "snd (splitext (dir @ CHR ''.'' # rest)) = [] \<and>
         calls (trace (update_vertex_search e c ev)) = [] \<and>
         (all_py [data ev ''bucket'', data ev ''name'', PROJECT_ID e, LOCATION e,
                  DATA_STORE_ID e] \<and> data ev ''bucket'' = Some b \<longrightarrow>
            trace (update_vertex_search e c ev) =
              [Print (processing_msg b (dir @ CHR ''.'' # rest)),
               Print (skipping_msg (dir @ CHR ''.'' # rest) [])])"
proof -
  let ?f = "dir @ CHR ''.'' # rest"
  have "splitext (dir @ [] @ CHR ''.'' # rest) =
      (if \<exists>c\<in>set []. c \<noteq> CHR ''.'' then (dir @ [], CHR ''.'' # rest)
       else (dir @ [] @ CHR ''.'' # rest, []))"
    using assms(1) _ assms(2,3) by (rule splitext_dotted) simp
  then have ext: "snd (splitext ?f) = []" by simp
  then have na: "lower (snd (splitext ?f)) \<notin> ALLOWED_EXTENSIONS"
    by (simp add: lower_Nil_not_allowed)
  have skip: "trace (update_vertex_search e c ev) =
      [Print (processing_msg b ?f), Print (skipping_msg ?f [])]"
    if "all_py [data ev ''bucket'', data ev ''name'', PROJECT_ID e, LOCATION e,
                DATA_STORE_ID e]" "data ev ''bucket'' = Some b" for b
    using uvs_skip [OF that(1) that(2) assms(4) na] by (simp add: ext)
  have "calls (trace (update_vertex_search e c ev)) = []"
  proof (cases "all_py [data ev ''bucket'', data ev ''name'', PROJECT_ID e, LOCATION e,
                        DATA_STORE_ID e]")
    case False
    then show ?thesis by (simp add: uvs_missing)
  next
    case True
    then obtain b' where "data ev ''bucket'' = Some b'"
      unfolding all_py5 truthy_iff by blast
    from skip [OF True this] show ?thesis by simp
  qed
  with ext skip show ?thesis by blast
qed

theorem leading_dot_name_skipped_witness:
  "snd (splitext ''dir/.docx'') = [] \<and>
   lower ''.docx'' \<in> ALLOWED_EXTENSIONS \<and>
   trace (update_vertex_search example_env accepting_client
            (example_event ''my-bucket'' ''dir/.docx'')) =
     [Print (processing_msg ''my-bucket'' ''dir/.docx''),
      Print (skipping_msg ''dir/.docx'' [])]"
proof -
  have d: "''dir/'' = [] \<or> last ''dir/'' = CHR ''/''"
    and r: "CHR ''/'' \<notin> set ''docx''" "CHR ''.'' \<notin> set ''docx''"
    by simp_all
  have n: "data (example_event ''my-bucket'' ''dir/.docx'') ''name'' =
      Some (''dir/'' @ CHR ''.'' # ''docx'')"
    by (simp add: example_event_def)
  have v: "all_py [data (example_event ''my-bucket'' ''dir/.docx'') ''bucket'',
      data (example_event ''my-bucket'' ''dir/.docx'') ''name'', PROJECT_ID example_env,
      LOCATION example_env, DATA_STORE_ID example_env]"
    by (simp add: all_py5 truthy_def example_fields)
  have a: "lower ''.docx'' \<in> ALLOWED_EXTENSIONS"
    by (simp add: lower_def lower_char_def ALLOWED_EXTENSIONS_def)
  from leading_dot_name_skipped [OF d r n, of example_env accepting_client "''my-bucket''"]
    v example_fields(1) [of "''my-bucket''" "''dir/.docx''"] a
  show ?thesis by simp
qed

subsection \<open>The extension that is compared\<close>

text \<open>
  As stated, C6 says that for every object name the extension compared with the allow-set is
  the lower-cased suffix after the last path separator and the last dot. For the name
  \<^verbatim>\<open>.pdf\<close> that suffix is \<^verbatim>\<open>.pdf\<close>, and the extension the handler compares is
  empty.
\<close>

theorem leading_dot_extension_differs:
  "spec_extension ''.pdf'' = ''.pdf'' \<and>
   lower (snd (splitext ''.pdf'')) = [] \<and>
   lower (snd (splitext ''.pdf'')) \<noteq> spec_extension ''.pdf''"
  by (simp add: spec_defs eval_defs)

text \<open>
  C6, amended: the extension compared with the allow-set is the lower-cased suffix of the
  name from the last dot of its final path component when that component has a character
  other than a dot before its last dot, and the empty string otherwise. When the fields are
  non-empty and that extension is not in the allow-set, the handler prints the processing
  line and a skip line naming the file and the extension, submits nothing and returns.
\<close>

theorem extension_derivation:
  "lower (snd (splitext name)) =
     (if \<exists>c\<in>set (spec_stem name). c \<noteq> CHR ''.'' then spec_extension name else []) \<and>
   (all_py [data ev ''bucket'', data ev ''name'', PROJECT_ID e, LOCATION e, DATA_STORE_ID e] \<and>
    data ev ''bucket'' = Some b \<and> data ev ''name'' = Some name \<and>
    lower (snd (splitext name)) \<notin> ALLOWED_EXTENSIONS \<longrightarrow>
      trace (update_vertex_search e c ev) =
        [Print (processing_msg b name), Print (skipping_msg name (snd (splitext name)))] \<and>
      calls (trace (update_vertex_search e c ev)) = [] \<and>
      raised (update_vertex_search e c ev) = None)"
proof
  show "lower (snd (splitext name)) =
     (if \<exists>c\<in>set (spec_stem name). c \<noteq> CHR ''.'' then spec_extension name else [])"
    by (simp add: splitext_spec [of name] spec_extension_def lower_def)
  show "all_py [data ev ''bucket'', data ev ''name'', PROJECT_ID e, LOCATION e, DATA_STORE_ID e] \<and>
    data ev ''bucket'' = Some b \<and> data ev ''name'' = Some name \<and>
    lower (snd (splitext name)) \<notin> ALLOWED_EXTENSIONS \<longrightarrow>
      trace (update_vertex_search e c ev) =
        [Print (processing_msg b name), Print (skipping_msg name (snd (splitext name)))] \<and>
      calls (trace (update_vertex_search e c ev)) = [] \<and>
      raised (update_vertex_search e c ev) = None"
  proof
    assume h: "all_py [data ev ''bucket'', data ev ''name'', PROJECT_ID e, LOCATION e,
        DATA_STORE_ID e] \<and> data ev ''bucket'' = Some b \<and> data ev ''name'' = Some name \<and>
      lower (snd (splitext name)) \<notin> ALLOWED_EXTENSIONS"
    then have "update_vertex_search e c ev =
        \<lparr>trace = [Print (processing_msg b name), Print (skipping_msg name (snd (splitext name)))],
         raised = None\<rparr>"
      by (intro uvs_skip) blast+
    then show "trace (update_vertex_search e c ev) =
        [Print (processing_msg b name), Print (skipping_msg name (snd (splitext name)))] \<and>
      calls (trace (update_vertex_search e c ev)) = [] \<and>
      raised (update_vertex_search e c ev) = None"
      by simp
  qed
qed

theorem extension_derivation_witness:
  "lower (snd (splitext ''reports/Q1.PDF'')) = ''.pdf'' \<and>
   lower (snd (splitext ''..pdf'')) = [] \<and>
   trace (update_vertex_search example_env accepting_client
            (example_event ''my-bucket'' ''notes.md'')) =
     [Print (processing_msg ''my-bucket'' ''notes.md''),
      Print (skipping_msg ''notes.md'' ''.md'')]"
proof -
  have s1: "\<exists>c\<in>set (spec_stem ''reports/Q1.PDF''). c \<noteq> CHR ''.''"
    and s2: "\<not> (\<exists>c\<in>set (spec_stem ''..pdf''). c \<noteq> CHR ''.'')"
    by (simp_all add: spec_defs)
  have x: "spec_extension ''reports/Q1.PDF'' = ''.pdf''"
    by (simp add: spec_defs lower_def lower_char_def)
  have v: "all_py [data (example_event ''my-bucket'' ''notes.md'') ''bucket'',
      data (example_event ''my-bucket'' ''notes.md'') ''name'', PROJECT_ID example_env,
      LOCATION example_env, DATA_STORE_ID example_env]"
    by (simp add: all_py5 truthy_def example_fields)
  have na: "lower (snd (splitext ''notes.md'')) \<notin> ALLOWED_EXTENSIONS"
    and md: "snd (splitext ''notes.md'') = ''.md''"
    by (simp_all add: eval_defs)
  from extension_derivation [of "''reports/Q1.PDF''"] s1 x
  have 1: "lower (snd (splitext ''reports/Q1.PDF'')) = ''.pdf''" by simp
  from extension_derivation [of "''..pdf''"] s2
  have 2: "lower (snd (splitext ''..pdf'')) = []" by simp
  from extension_derivation [of "''notes.md''" "example_event ''my-bucket'' ''notes.md''"
      example_env "''my-bucket''" accepting_client] v na example_fields(1,2)
  have 3: "trace (update_vertex_search example_env accepting_client
            (example_event ''my-bucket'' ''notes.md'')) =
     [Print (processing_msg ''my-bucket'' ''notes.md''),
      Print (skipping_msg ''notes.md'' ''.md'')]"
    by (simp add: md)
  from 1 2 3 show ?thesis by blast
qed

subsection \<open>Extensions that match\<close>

lemma lower_splitext_spec:
  assumes "\<exists>c\<in>set (spec_stem name). c \<noteq> CHR ''.''"
  shows "lower (snd (splitext name)) = spec_extension name"
  using assms by (simp add: splitext_spec [of name] spec_extension_def)

text \<open>
  As stated, C5 promises a submission for every object key whose extension matches the
  allow-set, names ending in \<^verbatim>\<open>.pdf\<close> among them. The names \<^verbatim>\<open>.pdf\<close> and
  \<^verbatim>\<open>reports/.PDF\<close> end in an allowed extension, lower-cased, and with non-empty fields
  and an accepting client nothing is submitted for them: the handler computes an empty
  extension for a final component that is a dot followed by the extension.
\<close>

theorem leading_dot_pdf_not_submitted:
  "spec_extension ''.pdf'' \<in> ALLOWED_EXTENSIONS \<and>
   calls (trace (update_vertex_search example_env accepting_client
            (example_event ''my-bucket'' ''.pdf''))) = [] \<and>
   spec_extension ''reports/.PDF'' \<in> ALLOWED_EXTENSIONS \<and>
   calls (trace (update_vertex_search example_env accepting_client
            (example_event ''my-bucket'' ''reports/.PDF''))) = []"
  by (simp add: spec_defs eval_defs)

text \<open>
  C5, amended: when the bucket, the name and the configuration are non-empty, the final path
  component of the name has a character other than a dot before its last dot, and the suffix
  of that component from its last dot, lower-cased, is in the allow-set, the request is
  submitted; \<^verbatim>\<open>a.PDF\<close>, \<^verbatim>\<open>a.Pdf\<close> and \<^verbatim>\<open>a.pdf\<close> are instances.
\<close>

theorem matching_extension_submits:
  assumes "data ev ''bucket'' = Some b" and "b \<noteq> []"
    and "data ev ''name'' = Some f" and "f \<noteq> []"
    and "PROJECT_ID e = Some p" and "p \<noteq> []"
    and "LOCATION e = Some l" and "l \<noteq> []"
    and "DATA_STORE_ID e = Some d" and "d \<noteq> []"
    and "\<exists>c\<in>set (spec_stem f). c \<noteq> CHR ''.''"
    and "spec_extension f \<in> ALLOWED_EXTENSIONS"
  shows "calls (trace (update_vertex_search e c ev)) =
           [build_request p l d (gcs_uri_of b f)]"
proof -
  have v: "all_py [data ev ''bucket'', data ev ''name'', PROJECT_ID e, LOCATION e,
                   DATA_STORE_ID e]"
    using assms by (simp add: all_py5 truthy_iff)
  have a: "lower (snd (splitext f)) \<in> ALLOWED_EXTENSIONS"
    using assms(11,12) by (simp add: lower_splitext_spec)
  show ?thesis
    using uvs_submit [OF v assms(1,3,5,7,9) a] by (simp add: calls_submit)
qed

theorem matching_extension_submits_witness:
  "calls (trace (update_vertex_search example_env accepting_client
            (example_event ''my-bucket'' ''a.PDF''))) =
     [build_request ''my-project'' ''global'' ''my-store'' (gcs_uri_of ''my-bucket'' ''a.PDF'')] \<and>
   calls (trace (update_vertex_search example_env accepting_client
            (example_event ''my-bucket'' ''a.Pdf''))) =
     [build_request ''my-project'' ''global'' ''my-store'' (gcs_uri_of ''my-bucket'' ''a.Pdf'')] \<and>
   calls (trace (update_vertex_search example_env accepting_client
            (example_event ''my-bucket'' ''a.pdf''))) =
     [build_request ''my-project'' ''global'' ''my-store'' (gcs_uri_of ''my-bucket'' ''a.pdf'')]"
proof -
  have s1: "\<exists>c\<in>set (spec_stem ''a.PDF''). c \<noteq> CHR ''.''"
    and s2: "\<exists>c\<in>set (spec_stem ''a.Pdf''). c \<noteq> CHR ''.''"
    and s3: "\<exists>c\<in>set (spec_stem ''a.pdf''). c \<noteq> CHR ''.''"
    by (simp_all add: spec_defs)
  have e1: "spec_extension ''a.PDF'' \<in> ALLOWED_EXTENSIONS"
    and e2: "spec_extension ''a.Pdf'' \<in> ALLOWED_EXTENSIONS"
    and e3: "spec_extension ''a.pdf'' \<in> ALLOWED_EXTENSIONS"
    by (simp_all add: spec_defs lower_def lower_char_def ALLOWED_EXTENSIONS_def)
  note r = matching_extension_submits [OF example_fields(1) _ example_fields(2) _
      example_fields(3) _ example_fields(4) _ example_fields(5)]
  show ?thesis
    using r [OF _ _ _ _ _ s1 e1] r [OF _ _ _ _ _ s2 e2] r [OF _ _ _ _ _ s3 e3] by simp
qed

end
